theory Spec2Isabelle
  imports Main "HOL-Library.AList" "HOL-Library.Multiset" "HOL-Library.Sublist"
begin

section \<open>The build helpers of dev-tools/mage/common.go\<close>

text \<open>
  The theory embeds four pieces of \<^verbatim>\<open>common.go\<close>: \<^verbatim>\<open>numParallel\<close>, the lazily created
  semaphore of \<^verbatim>\<open>parallelJobs\<close>, the runner \<^verbatim>\<open>ParallelCtx\<close> with its wrapper \<^verbatim>\<open>Parallel\<close>,
  and \<^verbatim>\<open>joinMaps\<close> with its callers \<^verbatim>\<open>expandTemplate\<close>, \<^verbatim>\<open>Expand\<close> and \<^verbatim>\<open>ExpandFile\<close>.
  A Go \<^verbatim>\<open>int\<close> is an \<^typ>\<open>int\<close>: the code compares and copies these numbers and never
  computes with them. A panic is a value of a sum type, \<^term>\<open>Inl\<close> carrying the panic.
\<close>

subsection \<open>The host: what the operating system and the libraries answer\<close>

text \<open>
  \<^verbatim>\<open>os.Getenv\<close>, \<^verbatim>\<open>strconv.Atoi\<close>, \<^verbatim>\<open>runtime.NumCPU\<close> and the cached result of
  \<^verbatim>\<open>GetDockerInfo\<close> (a \<^verbatim>\<open>sync.Once\<close> keeps the first answer) are not code of the file.
  They are fields of a record, so every theorem holds for whatever they answer.
  \<^verbatim>\<open>Getenv\<close> gives the empty string for an unset variable, \<^verbatim>\<open>Atoi\<close> and \<^verbatim>\<open>GetDockerInfo\<close>
  give \<^term>\<open>Inl\<close> of the error's text when \<^verbatim>\<open>err != nil\<close>. \<^verbatim>\<open>MaxChan\<close> is the largest
  number of \<^verbatim>\<open>int\<close>s the runtime allocates as the buffer of a channel.
\<close>

record DockerInfo =
  OperatingSystem :: string
  Labels :: "string list"
  NCPU :: int
  MemTotal :: int

record host =
  Getenv :: "string \<Rightarrow> string"
  Atoi :: "string \<Rightarrow> string + int"
  NumCPU :: int
  GetDockerInfo :: "string + DockerInfo"
  MaxChan :: int

subsection \<open>numParallel\<close>

text \<open>Lines 499-506: the smaller of the host's CPUs and the Docker host's, when Docker answers.\<close>

definition hostParallel :: "host \<Rightarrow> int" where
  "hostParallel h =
     (let maxParallel = NumCPU h in
      case GetDockerInfo h of
        Inr info \<Rightarrow> if NCPU info < maxParallel then NCPU info else maxParallel
      | Inl err \<Rightarrow> maxParallel)"

text \<open>Lines 490-507.\<close>

definition numParallel :: "host \<Rightarrow> int" where
  "numParallel h =
     (let maxParallel = Getenv h ''MAX_PARALLEL'' in
      if maxParallel \<noteq> []
      then (case Atoi h maxParallel of
              Inr num \<Rightarrow> if num > 0 then num else hostParallel h
            | Inl err \<Rightarrow> hostParallel h)
      else hostParallel h)"

subsection \<open>The semaphore of parallelJobs\<close>

text \<open>
  A buffered channel of \<^verbatim>\<open>int\<close> is its capacity and the values waiting in it.
  \<^verbatim>\<open>make(chan int, n)\<close> panics for a negative \<^verbatim>\<open>n\<close> and for one beyond what the
  runtime allocates. The package variable
  \<^verbatim>\<open>parallelJobsSemaphore\<close> is \<^term>\<open>None\<close> while it is \<^verbatim>\<open>nil\<close>. The lines the
  functions write with \<^verbatim>\<open>log.Println\<close> are kept in order.
\<close>

record chan =
  cap :: nat
  queue :: "int list"

datatype log_line = MaxParallelJobs int | ParallelJobWaited

record globals =
  parallelJobsSemaphore :: "chan option"
  logged :: "log_line list"

text \<open>Lines 472-475: when the process starts the variable is \<^verbatim>\<open>nil\<close>.\<close>

definition fresh :: globals where
  "fresh = \<lparr>parallelJobsSemaphore = None, logged = []\<rparr>"

definition makechan_panic :: string where
  "makechan_panic = ''makechan: size out of range''"

definition make_accepts :: "host \<Rightarrow> int \<Rightarrow> bool" where
  "make_accepts h n \<longleftrightarrow> 0 \<le> n \<and> n \<le> MaxChan h"

definition make_chan :: "host \<Rightarrow> int \<Rightarrow> string + chan" where
  "make_chan h n =
     (if make_accepts h n then Inr \<lparr>cap = nat n, queue = []\<rparr> else Inl makechan_panic)"

text \<open>
  Lines 477-488. The mutex makes the body atomic, so a call is one function from the
  globals to the globals. The channel the Go function returns is the one the package
  variable holds afterwards; a panic of \<^verbatim>\<open>make\<close> leaves the variable \<^verbatim>\<open>nil\<close>.
\<close>

definition parallelJobs :: "host \<Rightarrow> globals \<Rightarrow> string + globals" where
  "parallelJobs h g =
     (case parallelJobsSemaphore g of
        None \<Rightarrow>
          (let max = numParallel h in
           case make_chan h max of
             Inl p \<Rightarrow> Inl p
           | Inr c \<Rightarrow> Inr (g\<lparr>parallelJobsSemaphore := Some c,
                              logged := logged g @ [MaxParallelJobs max]\<rparr>))
      | Some c \<Rightarrow> Inr g)"

subsection \<open>joinMaps and the template helpers\<close>

text \<open>
  A Go map is \<^term>\<open>None\<close> when it is \<^verbatim>\<open>nil\<close> and otherwise the list of its entries in the
  order \<^verbatim>\<open>range\<close> visits them in this run. Reading and ranging over a \<^verbatim>\<open>nil\<close> map find no
  entry; assigning into one panics.
\<close>

type_synonym 'v gomap = "(string \<times> 'v) list option"

definition nil_map_panic :: string where
  "nil_map_panic = ''assignment to entry in nil map''"

fun entries :: "'v gomap \<Rightarrow> (string \<times> 'v) list" where
  "entries None = []"
| "entries (Some es) = es"

fun map_assign :: "'v gomap \<Rightarrow> string \<Rightarrow> 'v \<Rightarrow> string + 'v gomap" where
  "map_assign None k v = Inl nil_map_panic"
| "map_assign (Some es) k v = Inr (Some (AList.update k v es))"

text \<open>Lines 117-119, the inner loop.\<close>

fun assign_all :: "'v gomap \<Rightarrow> (string \<times> 'v) list \<Rightarrow> string + 'v gomap" where
  "assign_all out [] = Inr out"
| "assign_all out ((k, v) # es) =
     (case map_assign out k v of Inl p \<Rightarrow> Inl p | Inr out' \<Rightarrow> assign_all out' es)"

text \<open>Lines 116-120, the outer loop.\<close>

fun join_loop :: "'v gomap \<Rightarrow> 'v gomap list \<Rightarrow> string + 'v gomap" where
  "join_loop out [] = Inr out"
| "join_loop out (m # ms) =
     (case assign_all out (entries m) of Inl p \<Rightarrow> Inl p | Inr out' \<Rightarrow> join_loop out' ms)"

text \<open>Lines 107-122: \<^verbatim>\<open>out\<close> is declared and never made, so the loops start from \<^verbatim>\<open>nil\<close>.\<close>

fun joinMaps :: "'v gomap list \<Rightarrow> string + 'v gomap" where
  "joinMaps [] = Inr None"
| "joinMaps [m] = Inr m"
| "joinMaps args = join_loop None args"

text \<open>
  The template engine (\<^verbatim>\<open>text/template\<close>), the file system and the two names of the
  package that other files declare, \<^verbatim>\<open>FuncMap\<close> and \<^verbatim>\<open>EnvMap\<close>, are fields of a record.
  The call \<^verbatim>\<open>EnvMap(args...)\<close> stands where one map is expected, so \<^verbatim>\<open>EnvMap\<close> returns
  one map. An error is a datatype of the wrappers the code applies; \<open>quoted_v\<close> is the
  verb \<^verbatim>\<open>%v\<close> between single quotes.
\<close>

datatype go_error =
    LibError string
  | Wrap go_error string
  | Wrapf go_error string "string list"

definition quoted_v :: string where
  "quoted_v = [CHR 0x27] @ ''%v'' @ [CHR 0x27]"

record ('v, 'f, 't) lib =
  FuncMap :: 'f
  EnvMap :: "'v gomap list \<Rightarrow> 'v gomap"
  Parse :: "string \<Rightarrow> 'f \<Rightarrow> string \<Rightarrow> go_error + 't"
  Execute :: "'t \<Rightarrow> 'v gomap \<Rightarrow> go_error + string"
  ReadFile :: "string \<Rightarrow> go_error + string"
  MkdirAll :: "string \<Rightarrow> go_error option"
  WriteFile :: "string \<Rightarrow> string \<Rightarrow> go_error option"
  Dir :: "string \<Rightarrow> string"

text \<open>
  Lines 82-105. The result is \<^term>\<open>Inl\<close> of a panic, or \<^term>\<open>Inr\<close> of what the function
  returns: an error or the expanded text. The argument \<^verbatim>\<open>joinMaps(args...)\<close> is evaluated
  before \<^verbatim>\<open>Execute\<close> is entered.
\<close>

definition expandTemplate ::
  "('v, 'f, 't) lib \<Rightarrow> string \<Rightarrow> string \<Rightarrow> 'f \<Rightarrow> 'v gomap list \<Rightarrow> string + (go_error + string)" where
  "expandTemplate l name tmpl funcs args =
     (case Parse l name funcs tmpl of
        Inl err \<Rightarrow>
          if name = ''inline''
          then Inr (Inl (Wrapf err (''failed to parse template '' @ quoted_v) [tmpl]))
          else Inr (Inl (Wrap err ''failed to parse template''))
      | Inr t \<Rightarrow>
          (case joinMaps args of
             Inl p \<Rightarrow> Inl p
           | Inr data \<Rightarrow>
               (case Execute l t data of
                  Inl err \<Rightarrow>
                    if name = ''inline''
                    then Inr (Inl (Wrapf err (''failed to expand template '' @ quoted_v) [tmpl]))
                    else Inr (Inl (Wrap err ''failed to expand template''))
                | Inr out \<Rightarrow> Inr (Inr out))))"

text \<open>Lines 53-56.\<close>

definition Expand ::
  "('v, 'f, 't) lib \<Rightarrow> string \<Rightarrow> 'v gomap list \<Rightarrow> string + (go_error + string)" where
  "Expand l inp args = expandTemplate l ''inline'' inp (FuncMap l) [EnvMap l args]"

text \<open>Lines 673-682: a failure of \<^verbatim>\<open>os.MkdirAll\<close> is a panic carrying the wrapped error.\<close>

definition createDir :: "('v, 'f, 't) lib \<Rightarrow> string \<Rightarrow> go_error + string" where
  "createDir l file =
     (let dir = Dir l file in
      if dir \<noteq> ''.''
      then (case MkdirAll l dir of
              Some err \<Rightarrow> Inl (Wrapf err ''failed to create parent dir for %v'' [file])
            | None \<Rightarrow> Inr file)
      else Inr file)"

datatype 'a outcome3 = Panics_with string | Panics_error go_error | Gives 'a

text \<open>Lines 124-145. \<^term>\<open>Gives None\<close> is the \<^verbatim>\<open>nil\<close> error.\<close>

definition expandFile ::
  "('v, 'f, 't) lib \<Rightarrow> string \<Rightarrow> string \<Rightarrow> 'v gomap list \<Rightarrow> go_error option outcome3" where
  "expandFile l src dst args =
     (case ReadFile l src of
        Inl err \<Rightarrow> Gives (Some (Wrapf err ''failed reading from template %v'' [src]))
      | Inr tmplData \<Rightarrow>
          (case expandTemplate l src tmplData (FuncMap l) args of
             Inl p \<Rightarrow> Panics_with p
           | Inr (Inl err) \<Rightarrow> Gives (Some err)
           | Inr (Inr output) \<Rightarrow>
               (case expandTemplate l ''inline'' dst (FuncMap l) args of
                  Inl p \<Rightarrow> Panics_with p
                | Inr (Inl err) \<Rightarrow> Gives (Some err)
                | Inr (Inr dst') \<Rightarrow>
                    (case createDir l dst' of
                       Inl e \<Rightarrow> Panics_error e
                     | Inr file \<Rightarrow>
                         (case WriteFile l file output of
                            Some err \<Rightarrow> Gives (Some (Wrap err ''failed to write rendered template''))
                          | None \<Rightarrow> Gives None)))))"

text \<open>Lines 68-72.\<close>

definition ExpandFile ::
  "('v, 'f, 't) lib \<Rightarrow> string \<Rightarrow> string \<Rightarrow> 'v gomap list \<Rightarrow> go_error option outcome3" where
  "ExpandFile l src dst args = expandFile l src dst [EnvMap l args]"

subsection \<open>Tasks\<close>

text \<open>
  A task is what its one call does: it returns or it panics. An error is
  \<^term>\<open>None\<close> for \<^verbatim>\<open>nil\<close> and otherwise the text \<^verbatim>\<open>fmt.Sprint(err)\<close> gives; a panic carries
  what \<^verbatim>\<open>recover()\<close> hands back in the deferred function: \<^term>\<open>None\<close> when that value is
  \<^verbatim>\<open>nil\<close> (a \<^verbatim>\<open>panic(nil)\<close> in a Go before 1.21, the Go of this repository), and otherwise
  the text \<^verbatim>\<open>fmt.Sprint(v)\<close> gives for it. A task is taken to end, and not to use the
  semaphore itself.
  \<^verbatim>\<open>types.FuncTypeWrap\<close> of the mage library accepts the four function types below and
  answers \<^verbatim>\<open>nil\<close> for any other value.
\<close>

datatype Context = Background | WithCancel Context | WithValue Context string string

datatype 'a behaviour = Returns 'a | Panics "string option"

type_synonym task = "Context \<Rightarrow> string option behaviour"

datatype dep =
    Func "unit behaviour"
  | FuncError "string option behaviour"
  | FuncCtx "Context \<Rightarrow> unit behaviour"
  | FuncCtxError "Context \<Rightarrow> string option behaviour"
  | NotAFunc

fun no_error :: "unit behaviour \<Rightarrow> string option behaviour" where
  "no_error (Returns u) = Returns None"
| "no_error (Panics v) = Panics v"

fun FuncTypeWrap :: "dep \<Rightarrow> task option" where
  "FuncTypeWrap (Func f) = Some (\<lambda>ctx. no_error f)"
| "FuncTypeWrap (FuncError f) = Some (\<lambda>ctx. f)"
| "FuncTypeWrap (FuncCtx f) = Some (\<lambda>ctx. no_error (f ctx))"
| "FuncTypeWrap (FuncCtxError f) = Some f"
| "FuncTypeWrap NotAFunc = None"

definition dep_panic :: string where
  "dep_panic = ''attempted to add a dep that did not match required function type''"

text \<open>Lines 513-520: the loop panics at the first value that is no task.\<close>

fun wrap_all :: "dep list \<Rightarrow> string + task list" where
  "wrap_all [] = Inr []"
| "wrap_all (f # fs) =
     (case FuncTypeWrap f of
        None \<Rightarrow> Inl dep_panic
      | Some fnWrapper \<Rightarrow>
          (case wrap_all fs of Inl p \<Rightarrow> Inl p | Inr fnWrappers \<Rightarrow> Inr (fnWrapper # fnWrappers)))"

subsection \<open>ParallelCtx as an interleaving of goroutines\<close>

text \<open>
  A goroutine of line 528 is at one of these places:
  \<^item> \<^verbatim>\<open>Start\<close>: about to evaluate \<^verbatim>\<open>parallelJobs()\<close> of line 539;
  \<^item> \<^verbatim>\<open>Sending\<close>: at the send of line 539, which waits while the channel is full;
  \<^item> \<^verbatim>\<open>Calling\<close>: the send is done, \<^verbatim>\<open>fw(ctx)\<close> of line 541 runs;
  \<^item> \<^verbatim>\<open>Failed e\<close>: \<^verbatim>\<open>fw\<close> returned the error \<^verbatim>\<open>e\<close>, lines 542-544 are next;
  \<^item> \<^verbatim>\<open>Recovering v\<close>: a panic is under way, the deferred function has called
    \<^verbatim>\<open>recover()\<close> and the check \<^verbatim>\<open>v != nil\<close> of line 530 is next;
  \<^item> \<^verbatim>\<open>Finishing\<close>: in the deferred function, about to call \<^verbatim>\<open>wg.Done()\<close> of line 535;
  \<^item> \<^verbatim>\<open>Releasing\<close>: about to evaluate \<^verbatim>\<open>parallelJobs()\<close> of line 536;
  \<^item> \<^verbatim>\<open>Receiving\<close>: at the receive of line 536, which waits while the channel is empty;
  \<^item> \<^verbatim>\<open>Exited\<close>: the goroutine is over.
\<close>

datatype pc =
    Start | Sending | Calling | Failed string | Recovering "string option"
  | Finishing | Releasing | Receiving | Exited

datatype panic_value = PanicString string | PanicErrorf string

datatype outcome = Normal | Panic panic_value

text \<open>
  The state of one call: the package variables, the wrappers the loop of line 526 has not
  started yet, the goroutines it has started, the counter of the wait group, \<^verbatim>\<open>errs\<close>,
  how the call ended once it has, and the panic that killed the process if one did
  (a panic inside the deferred function is recovered by nobody).
  \<^term>\<open>PanicErrorf f\<close> is the value \<^verbatim>\<open>errors.Errorf(f)\<close>: the text is handed over as the format,
  with no operand.
\<close>

record state =
  globals :: globals
  pending :: "task list"
  gs :: "(pc \<times> task) list"
  wg :: int
  errs :: "string list"
  returned :: "outcome option"
  crashed :: "string option"

fun Join :: "string list \<Rightarrow> string \<Rightarrow> string" where
  "Join [] sep = []"
| "Join [x] sep = x"
| "Join (x # y # ys) sep = x @ sep @ Join (y # ys) sep"

definition newline :: string where
  "newline = [CHR 0x0A]"

text \<open>Lines 550-552.\<close>

definition verdict :: "string list \<Rightarrow> outcome" where
  "verdict es = (if length es > 0 then Panic (PanicErrorf (Join es newline)) else Normal)"

definition set_pc :: "nat \<Rightarrow> pc \<Rightarrow> state \<Rightarrow> state" where
  "set_pc i p s = s\<lparr>gs := (gs s)[i := (p, snd (gs s ! i))]\<rparr>"

definition send1 :: "chan \<Rightarrow> globals \<Rightarrow> globals" where
  "send1 c g = g\<lparr>parallelJobsSemaphore := Some (c\<lparr>queue := queue c @ [1]\<rparr>),
                 logged := logged g @ [ParallelJobWaited]\<rparr>"

definition wg_panic :: string where
  "wg_panic = ''sync: negative WaitGroup counter''"

text \<open>One step of goroutine \<open>i\<close>; \<^term>\<open>None\<close> when it waits or is over.\<close>

definition step_g :: "host \<Rightarrow> Context \<Rightarrow> nat \<Rightarrow> state \<Rightarrow> state option" where
  "step_g h ctx i s =
     (case fst (gs s ! i) of
        Start \<Rightarrow>
          (case parallelJobs h (globals s) of
             Inl p \<Rightarrow> Some (set_pc i (Recovering (Some p)) s)
           | Inr g' \<Rightarrow> Some (set_pc i Sending (s\<lparr>globals := g'\<rparr>)))
      | Sending \<Rightarrow>
          (case parallelJobsSemaphore (globals s) of
             None \<Rightarrow> None
           | Some c \<Rightarrow>
               if length (queue c) < cap c
               then Some (set_pc i Calling (s\<lparr>globals := send1 c (globals s)\<rparr>))
               else None)
      | Calling \<Rightarrow>
          (case snd (gs s ! i) ctx of
             Returns None \<Rightarrow> Some (set_pc i Finishing s)
           | Returns (Some e) \<Rightarrow> Some (set_pc i (Failed e) s)
           | Panics v \<Rightarrow> Some (set_pc i (Recovering v) s))
      | Failed e \<Rightarrow> Some (set_pc i Finishing (s\<lparr>errs := errs s @ [e]\<rparr>))
      | Recovering v \<Rightarrow>
          (case v of
             None \<Rightarrow> Some (set_pc i Finishing s)
           | Some msg \<Rightarrow> Some (set_pc i Finishing (s\<lparr>errs := errs s @ [msg]\<rparr>)))
      | Finishing \<Rightarrow>
          if wg s - 1 < 0 then Some (s\<lparr>crashed := Some wg_panic\<rparr>)
          else Some (set_pc i Releasing (s\<lparr>wg := wg s - 1\<rparr>))
      | Releasing \<Rightarrow>
          (case parallelJobs h (globals s) of
             Inl p \<Rightarrow> Some (s\<lparr>crashed := Some p\<rparr>)
           | Inr g' \<Rightarrow> Some (set_pc i Receiving (s\<lparr>globals := g'\<rparr>)))
      | Receiving \<Rightarrow>
          (case parallelJobsSemaphore (globals s) of
             None \<Rightarrow> None
           | Some c \<Rightarrow>
               (case queue c of
                  [] \<Rightarrow> None
                | x # xs \<Rightarrow>
                    Some (set_pc i Exited
                      (s\<lparr>globals := (globals s)\<lparr>parallelJobsSemaphore := Some (c\<lparr>queue := xs\<rparr>)\<rparr>\<rparr>))))
      | Exited \<Rightarrow> None)"

text \<open>
  The caller's goroutine, lines 526-552: it starts the next goroutine (\<^verbatim>\<open>wg.Add(1)\<close> and
  \<^verbatim>\<open>go\<close>), and after the last one \<^verbatim>\<open>wg.Wait()\<close> lets it go on only when the counter is zero.
\<close>

definition step_main :: "state \<Rightarrow> state option" where
  "step_main s =
     (if returned s \<noteq> None then None
      else case pending s of
             fw # fws \<Rightarrow> Some (s\<lparr>wg := wg s + 1, gs := gs s @ [(Start, fw)], pending := fws\<rparr>)
           | [] \<Rightarrow> if wg s = 0 then Some (s\<lparr>returned := Some (verdict (errs s))\<rparr>) else None)"

text \<open>
  On a channel of capacity zero a send and a receive complete together, when one goroutine
  is at the send and another at the receive.
\<close>

definition step_sync :: "nat \<Rightarrow> nat \<Rightarrow> state \<Rightarrow> state option" where
  "step_sync i j s =
     (case parallelJobsSemaphore (globals s) of
        None \<Rightarrow> None
      | Some c \<Rightarrow>
          if cap c = 0 \<and> i < length (gs s) \<and> j < length (gs s) \<and> i \<noteq> j
             \<and> fst (gs s ! i) = Sending \<and> fst (gs s ! j) = Receiving
          then Some (set_pc j Exited (set_pc i Calling
                 (s\<lparr>globals := (globals s)\<lparr>logged := logged (globals s) @ [ParallelJobWaited]\<rparr>\<rparr>)))
          else None)"

text \<open>The scheduler picks who moves next. Nothing moves in a process that has crashed.\<close>

datatype tid = Main | G nat | Sync nat nat

definition step :: "host \<Rightarrow> Context \<Rightarrow> tid \<Rightarrow> state \<Rightarrow> state option" where
  "step h ctx t s =
     (if crashed s \<noteq> None then None
      else case t of
             Main \<Rightarrow> step_main s
           | G i \<Rightarrow> if i < length (gs s) then step_g h ctx i s else None
           | Sync i j \<Rightarrow> step_sync i j s)"

fun exec :: "host \<Rightarrow> Context \<Rightarrow> tid list \<Rightarrow> state \<Rightarrow> state option" where
  "exec h ctx [] s = Some s"
| "exec h ctx (t # ts) s =
     (case step h ctx t s of None \<Rightarrow> None | Some s' \<Rightarrow> exec h ctx ts s')"

text \<open>Lines 512-524: the state when the loop of line 526 is reached, or the panic of line 517.\<close>

definition ParallelCtx_start :: "globals \<Rightarrow> dep list \<Rightarrow> state" where
  "ParallelCtx_start g fns =
     (case wrap_all fns of
        Inl p \<Rightarrow>
          \<lparr>globals = g, pending = [], gs = [], wg = 0, errs = [],
           returned = Some (Panic (PanicString p)), crashed = None\<rparr>
      | Inr fnWrappers \<Rightarrow>
          \<lparr>globals = g, pending = fnWrappers, gs = [], wg = 0, errs = [],
           returned = None, crashed = None\<rparr>)"

text \<open>
  A run of \<^verbatim>\<open>ParallelCtx(ctx, fns...)\<close> under a schedule: the state it reaches, or
  \<^term>\<open>None\<close> when the schedule asks a goroutine to move that cannot.
\<close>

definition ParallelCtx :: "host \<Rightarrow> globals \<Rightarrow> Context \<Rightarrow> dep list \<Rightarrow> tid list \<Rightarrow> state option" where
  "ParallelCtx h g ctx fns sched = exec h ctx sched (ParallelCtx_start g fns)"

text \<open>Lines 557-559.\<close>

definition Parallel :: "host \<Rightarrow> globals \<Rightarrow> dep list \<Rightarrow> tid list \<Rightarrow> state option" where
  "Parallel h g fns sched = ParallelCtx h g Background fns sched"

subsection \<open>Repeated calls of parallelJobs\<close>

text \<open>
  A process calls \<^verbatim>\<open>parallelJobs\<close> again and again, and the host may answer differently
  each time (the environment variable can change between two calls). A panic ends the
  sequence.
\<close>

fun parallelJobs_calls :: "host list \<Rightarrow> globals \<Rightarrow> string + globals" where
  "parallelJobs_calls [] g = Inr g"
| "parallelJobs_calls (h # hs) g =
     (case parallelJobs h g of Inl p \<Rightarrow> Inl p | Inr g' \<Rightarrow> parallelJobs_calls hs g')"

subsection \<open>What the goroutines of a run have done so far\<close>

text \<open>
  A goroutine is before its \<^verbatim>\<open>wg.Done()\<close> up to \<^verbatim>\<open>Finishing\<close>. It holds a slot of the
  semaphore from the end of its send to the end of its receive, and its task runs at
  \<^verbatim>\<open>Calling\<close>. From \<^verbatim>\<open>Finishing\<close> on it has recorded the failure of its task, if the
  task failed.
\<close>

fun before_done :: "pc \<Rightarrow> bool" where
  "before_done Releasing = False"
| "before_done Receiving = False"
| "before_done Exited = False"
| "before_done p = True"

fun holding :: "pc \<Rightarrow> bool" where
  "holding Start = False"
| "holding Sending = False"
| "holding Exited = False"
| "holding p = True"

fun running :: "pc \<Rightarrow> bool" where
  "running Calling = True"
| "running p = False"

fun recorded :: "pc \<Rightarrow> bool" where
  "recorded Finishing = True"
| "recorded Releasing = True"
| "recorded Receiving = True"
| "recorded Exited = True"
| "recorded p = False"

text \<open>
  A task has failed when it returns an error that is not \<^verbatim>\<open>nil\<close> or panics. Its failure
  message is the text of the error, or of the value it panics with when \<^verbatim>\<open>recover()\<close>
  hands one back; a panic with \<^verbatim>\<open>nil\<close> has no message. \<open>failures\<close> lists the messages of
  the tasks in the order of the arguments.
\<close>

fun failed :: "string option behaviour \<Rightarrow> bool" where
  "failed (Returns None) = False"
| "failed (Returns (Some e)) = True"
| "failed (Panics v) = True"

fun failure :: "string option behaviour \<Rightarrow> string list" where
  "failure (Returns None) = []"
| "failure (Returns (Some e)) = [e]"
| "failure (Panics None) = []"
| "failure (Panics (Some v)) = [v]"


definition said :: "Context \<Rightarrow> pc \<times> task \<Rightarrow> string list" where
  "said ctx q = (if recorded (fst q) then failure (snd q ctx) else [])"

text \<open>A goroutine that is recording a failure records the one its task ended with.\<close>

fun pc_ok :: "Context \<Rightarrow> pc \<times> task \<Rightarrow> bool" where
  "pc_ok ctx (Failed e, f) = (f ctx = Returns (Some e))"
| "pc_ok ctx (Recovering v, f) = (f ctx = Panics v)"
| "pc_ok ctx (p, f) = True"

text \<open>\<open>tally P\<close> counts the goroutines at a place that satisfies \<open>P\<close>; \<open>told\<close> collects the
  failures the goroutines have recorded.\<close>

definition tally :: "(pc \<Rightarrow> bool) \<Rightarrow> (pc \<times> task) list \<Rightarrow> nat" where
  "tally P qs = sum_list (map (\<lambda>q. if P (fst q) then 1 else 0) qs)"

definition told :: "Context \<Rightarrow> (pc \<times> task) list \<Rightarrow> string multiset" where
  "told ctx qs = sum_list (map (\<lambda>q. mset (said ctx q)) qs)"

text \<open>
  The capacity of the semaphore a run works with: the one of the channel if the process
  has made it, and otherwise the one \<^verbatim>\<open>parallelJobs\<close> will give it. The semaphore is idle
  when no slot is taken at the start of the call; when it is still \<^verbatim>\<open>nil\<close>, \<^verbatim>\<open>make\<close> must
  accept the size.
\<close>

definition capacity :: "host \<Rightarrow> globals \<Rightarrow> nat" where
  "capacity h g =
     (case parallelJobsSemaphore g of None \<Rightarrow> nat (numParallel h) | Some c \<Rightarrow> cap c)"

definition idle :: "host \<Rightarrow> globals \<Rightarrow> bool" where
  "idle h g =
     (case parallelJobsSemaphore g of
        None \<Rightarrow> make_accepts h (numParallel h)
      | Some c \<Rightarrow> queue c = [])"

text \<open>
  The invariant of a run over the wrappers \<open>ws\<close> with a semaphore of capacity \<open>k\<close>: the
  process is alive; every wrapper is started or still to start; the wait group counts the
  goroutines before their \<^verbatim>\<open>wg.Done()\<close>; the channel holds one value for every goroutine
  that holds a slot; \<^verbatim>\<open>errs\<close> holds the failures recorded so far; and once the call has
  ended, it ended after all goroutines were done, with the verdict on \<^verbatim>\<open>errs\<close>.
\<close>

definition good :: "host \<Rightarrow> Context \<Rightarrow> nat \<Rightarrow> task list \<Rightarrow> state \<Rightarrow> bool" where
  "good h ctx k ws s \<longleftrightarrow>
     crashed s = None \<and>
     map snd (gs s) @ pending s = ws \<and>
     wg s = int (tally before_done (gs s)) \<and>
     (case parallelJobsSemaphore (globals s) of
        None \<Rightarrow> make_accepts h (numParallel h) \<and> k = nat (numParallel h) \<and>
          (\<forall>q \<in> set (gs s). fst q = Start)
      | Some c \<Rightarrow> cap c = k \<and> tally holding (gs s) = length (queue c) \<and> length (queue c) \<le> k) \<and>
     (\<forall>q \<in> set (gs s). pc_ok ctx q) \<and>
     mset (errs s) = told ctx (gs s) \<and>
     (returned s \<noteq> None \<longrightarrow>
        pending s = [] \<and> tally before_done (gs s) = 0 \<and>
        returned s = Some (verdict (errs s)))"

text \<open>Every step uses up fuel, so a run cannot go on for ever.\<close>

fun rank :: "pc \<Rightarrow> nat" where
  "rank Start = 8"
| "rank Sending = 7"
| "rank Calling = 6"
| "rank (Failed e) = 5"
| "rank (Recovering v) = 5"
| "rank Finishing = 4"
| "rank Releasing = 3"
| "rank Receiving = 2"
| "rank Exited = 1"

definition fuel :: "state \<Rightarrow> nat" where
  "fuel s = sum_list (map (\<lambda>q. rank (fst q)) (gs s)) + 9 * length (pending s)
            + (if returned s = None then 1 else 0)"

subsection \<open>Example inputs\<close>

text \<open>
  A host with \<^verbatim>\<open>MAX_PARALLEL=4\<close>, eight CPUs, a Docker host of two and room for a
  million values in a channel; three tasks, of which the first returns an error and the
  second panics; two schedules for them; a list of arguments with a value that is no
  task; and a library whose \<^verbatim>\<open>EnvMap\<close> merges its arguments into one map.
\<close>

definition host_a :: host where
  "host_a = \<lparr>Getenv = (\<lambda>k. if k = ''MAX_PARALLEL'' then ''4'' else []),
            Atoi = (\<lambda>s. if s = ''4'' then Inr 4 else if s = ''0'' then Inr 0
                        else if s = ''-3'' then Inr (- 3) else Inl ''invalid syntax''),
            NumCPU = 8,
            GetDockerInfo = Inr \<lparr>OperatingSystem = ''linux'', Labels = [], NCPU = 2, MemTotal = 1024\<rparr>,
            MaxChan = 1000000\<rparr>"

definition fns_ex :: "dep list" where
  "fns_ex = [FuncError (Returns (Some ''boom'')), Func (Panics (Some ''oops'')),
             FuncCtx (\<lambda>ctx. Returns ())]"

definition ws_ex :: "task list" where
  "ws_ex = map (\<lambda>f. the (FuncTypeWrap f)) fns_ex"


definition sched_two :: "tid list" where
  "sched_two = [Main, Main, Main, G 0, G 0, G (Suc 0), G (Suc 0), G (Suc (Suc 0)), G (Suc (Suc 0))]"

definition fns_bad :: "dep list" where
  "fns_bad = [Func (Returns ()), NotAFunc, FuncError (Returns None)]"

definition lib_ex :: "(nat, unit, string) lib" where
  "lib_ex = \<lparr>FuncMap = (),
             EnvMap = (\<lambda>args. Some (concat (map entries args))),
             Parse = (\<lambda>name funcs tmpl. Inr tmpl),
             Execute = (\<lambda>t data. Inr t),
             ReadFile = (\<lambda>path. Inr ''text''),
             MkdirAll = (\<lambda>dir. None),
             WriteFile = (\<lambda>path data. None),
             Dir = (\<lambda>path. ''.'')\<rparr>"

section \<open>Lemmas\<close>

subsection \<open>Lists of goroutines\<close>

lemma sum_list_update_add:
  fixes f :: "'a \<Rightarrow> 'b::comm_monoid_add"
  shows "i < length xs \<Longrightarrow>
    sum_list (map f (xs[i := y])) + f (xs ! i) = sum_list (map f xs) + f y"
proof (induction xs arbitrary: i)
  case Nil
  then show ?case by simp
next
  case (Cons x xs)
  show ?case
  proof (cases i)
    case 0
    then show ?thesis by (simp add: add_ac)
  next
    case (Suc j)
    with Cons.prems have "j < length xs" by simp
    from Cons.IH [OF this] Suc show ?thesis
      by (simp add: add.assoc)
  qed
qed

lemma tally_set:
  assumes "i < length qs" and "fst (qs ! i) = p"
  shows "tally P (qs[i := (p', f)]) + (if P p then 1 else 0) = tally P qs + (if P p' then 1 else 0)"
  using sum_list_update_add [OF assms(1), of "\<lambda>q. if P (fst q) then 1 else (0::nat)" "(p', f)"] assms(2)
  by (simp add: tally_def)

lemma told_set:
  assumes "i < length qs"
  shows "told ctx (qs[i := q]) + mset (said ctx (qs ! i)) = told ctx qs + mset (said ctx q)"
  using sum_list_update_add [OF assms, of "\<lambda>q. mset (said ctx q)" q]
  by (simp add: told_def)

lemma tally_snoc: "tally P (qs @ [q]) = tally P qs + (if P (fst q) then 1 else 0)"
  by (simp add: tally_def)

lemma told_snoc: "told ctx (qs @ [q]) = told ctx qs + mset (said ctx q)"
  by (simp add: told_def)

lemma tally_none: "(\<forall>q \<in> set qs. \<not> P (fst q)) \<Longrightarrow> tally P qs = 0"
  by (induction qs) (simp_all add: tally_def)

lemma tally_pos: "i < length qs \<Longrightarrow> P (fst (qs ! i)) \<Longrightarrow> 0 < tally P qs"
proof (induction qs arbitrary: i)
  case Nil
  then show ?case by simp
next
  case (Cons q qs)
  then show ?case by (cases i) (auto simp: tally_def)
qed

lemma tally_zero_iff: "tally P qs = 0 \<longleftrightarrow> (\<forall>q \<in> set qs. \<not> P (fst q))"
  by (induction qs) (auto simp: tally_def)

lemma tally_witness: "0 < tally P qs \<Longrightarrow> \<exists>i < length qs. P (fst (qs ! i))"
proof -
  assume "0 < tally P qs"
  then have "\<not> (\<forall>q \<in> set qs. \<not> P (fst q))" using tally_zero_iff [of P qs] by simp
  then obtain q where "q \<in> set qs" "P (fst q)" by blast
  then show ?thesis by (auto simp: in_set_conv_nth)
qed

lemma tally_mono: "(\<And>p. P p \<Longrightarrow> Q p) \<Longrightarrow> tally P qs \<le> tally Q qs"
  by (induction qs) (auto simp: tally_def)

lemma tally_map_fst: "tally P qs = length (filter P (map fst qs))"
  by (induction qs) (simp_all add: tally_def)

lemma map_snd_set: "i < length qs \<Longrightarrow> map snd (qs[i := (p, snd (qs ! i))]) = map snd qs"
  by (simp add: map_update list_update_same_conv)

lemma set_update_all:
  "\<forall>q \<in> set qs. P q \<Longrightarrow> P y \<Longrightarrow> \<forall>q \<in> set (qs[i := y]). P q"
  using set_update_subset_insert [of qs i y] by auto

lemma holding_le:
  "i < length qs \<Longrightarrow> holding (fst (qs ! i)) \<Longrightarrow> 1 \<le> tally holding qs"
  using tally_pos [of i qs holding] by simp

lemma running_holding: "running p \<Longrightarrow> holding p"
  by (cases p) simp_all




subsection \<open>The invariant holds along every run\<close>

lemma good_spawn:
  assumes "good h ctx k ws s" and "returned s = None" and "pending s = fw # fws"
  shows "good h ctx k ws (s\<lparr>wg := wg s + 1, gs := gs s @ [(Start, fw)], pending := fws\<rparr>)"
  using assms
  by (auto simp: good_def tally_snoc told_snoc said_def split: option.splits)

lemma good_return:
  assumes "good h ctx k ws s" and "returned s = None" and "pending s = []" and "wg s = 0"
  shows "good h ctx k ws (s\<lparr>returned := Some (verdict (errs s))\<rparr>)"
  using assms by (auto simp: good_def split: option.splits)

lemma good_main:
  assumes "good h ctx k ws s" and "step_main s = Some s'"
  shows "good h ctx k ws s'"
proof (cases "pending s")
  case Nil
  with assms(2) have "returned s = None" "wg s = 0" "s' = s\<lparr>returned := Some (verdict (errs s))\<rparr>"
    by (auto simp: step_main_def split: if_splits)
  with good_return [OF assms(1) _ Nil] show ?thesis by simp
next
  case (Cons fw fws)
  with assms(2) have "returned s = None"
    "s' = s\<lparr>wg := wg s + 1, gs := gs s @ [(Start, fw)], pending := fws\<rparr>"
    by (auto simp: step_main_def split: if_splits)
  with good_spawn [OF assms(1) _ Cons] show ?thesis by simp
qed

lemma good_move:
  assumes g: "good h ctx k ws s" and i: "i < length (gs s)" and q: "gs s ! i = (p, f)"
    and fields: "gs s' = (gs s)[i := (p', f)]" "pending s' = pending s"
      "returned s' = returned s" "crashed s' = crashed s"
    and w: "wg s' + (if before_done p then 1 else 0) = wg s + (if before_done p' then 1 else 0)"
    and e: "mset (errs s') + mset (said ctx (p, f)) = mset (errs s) + mset (said ctx (p', f))"
    and ok: "pc_ok ctx (p', f)"
    and sem: "case parallelJobsSemaphore (globals s') of
                None \<Rightarrow> parallelJobsSemaphore (globals s) = None \<and> p' = Start
              | Some c \<Rightarrow> cap c = k \<and> length (queue c) \<le> k \<and>
                  length (queue c) + (if holding p then 1 else 0)
                    = tally holding (gs s) + (if holding p' then 1 else 0)"
    and late: "\<not> before_done p \<Longrightarrow> \<not> before_done p' \<and> errs s' = errs s"
  shows "good h ctx k ws s'"
proof -
  let ?qs = "(gs s)[i := (p', f)]"
  have p: "fst (gs s ! i) = p" using q by simp
  have 1: "tally before_done ?qs + (if before_done p then 1 else 0)
            = tally before_done (gs s) + (if before_done p' then 1 else 0)"
    using tally_set [OF i p, of before_done p' f] by simp
  have 2: "tally holding ?qs + (if holding p then 1 else 0)
            = tally holding (gs s) + (if holding p' then 1 else 0)"
    using tally_set [OF i p, of holding p' f] by simp
  have 3: "told ctx ?qs + mset (said ctx (p, f)) = told ctx (gs s) + mset (said ctx (p', f))"
    using told_set [OF i, of ctx "(p', f)"] q by simp
  have 4: "map snd ?qs = map snd (gs s)"
    using map_snd_set [OF i, of p'] q by simp
  have 5: "\<forall>q \<in> set ?qs. pc_ok ctx q"
    using g ok by (intro set_update_all) (simp_all add: good_def)
  have c1: "crashed s' = None" using g fields by (simp add: good_def)
  have c2: "map snd (gs s') @ pending s' = ws" using g fields 4 by (simp add: good_def)
  have c3: "wg s' = int (tally before_done (gs s'))"
    using g w 1 fields by (simp add: good_def split: if_splits)
  have c4: "case parallelJobsSemaphore (globals s') of
        None \<Rightarrow> make_accepts h (numParallel h) \<and> k = nat (numParallel h) \<and>
          (\<forall>q \<in> set (gs s'). fst q = Start)
      | Some c \<Rightarrow> cap c = k \<and> tally holding (gs s') = length (queue c) \<and> length (queue c) \<le> k"
  proof (cases "parallelJobsSemaphore (globals s')")
    case None
    with sem have n: "parallelJobsSemaphore (globals s) = None" "p' = Start" by simp_all
    with g have a: "make_accepts h (numParallel h)" "k = nat (numParallel h)" "\<forall>q \<in> set (gs s). fst q = Start"
      by (simp_all add: good_def)
    have "\<forall>q \<in> set ?qs. fst q = Start"
      using a(3) n(2) by (intro set_update_all) simp_all
    with a None fields show ?thesis by simp
  next
    case (Some c)
    with sem 2 fields show ?thesis by (simp split: if_splits)
  qed
  have c5: "\<forall>q \<in> set (gs s'). pc_ok ctx q" using 5 fields by simp
  have c6: "mset (errs s') = told ctx (gs s')"
  proof -
    have "mset (errs s') + mset (said ctx (p, f)) = told ctx ?qs + mset (said ctx (p, f))"
      using e 3 g by (simp add: good_def)
    then show ?thesis using fields by simp
  qed
  have c7: "returned s' \<noteq> None \<longrightarrow>
        pending s' = [] \<and> tally before_done (gs s') = 0 \<and>
        returned s' = Some (verdict (errs s'))"
  proof
    assume "returned s' \<noteq> None"
    with fields g have r: "pending s = []" "tally before_done (gs s) = 0"
      "returned s = Some (verdict (errs s))" by (simp_all add: good_def)
    from r(2) i p have "\<not> before_done p"
      using tally_pos [of i "gs s" before_done] by auto
    with late have l: "\<not> before_done p" "\<not> before_done p'" "errs s' = errs s" by simp_all
    with 1 r fields show "pending s' = [] \<and> tally before_done (gs s') = 0 \<and>
        returned s' = Some (verdict (errs s'))" by simp
  qed
  show ?thesis
    unfolding good_def using c1 c2 c3 c4 c5 c6 c7 by blast
qed

lemma good_step_g:
  assumes g: "good h ctx k ws s" and i: "i < length (gs s)"
    and st: "step_g h ctx i s = Some s'"
  shows "good h ctx k ws s'"
proof -
  obtain p f where q: "gs s ! i = (p, f)" by (cases "gs s ! i")
  note M = good_move [OF g i q]
  have sem_inv: "case parallelJobsSemaphore (globals s) of
        None \<Rightarrow> make_accepts h (numParallel h) \<and> k = nat (numParallel h) \<and>
          (\<forall>q \<in> set (gs s). fst q = Start)
      | Some c \<Rightarrow> cap c = k \<and> tally holding (gs s) = length (queue c) \<and> length (queue c) \<le> k"
    using g by (simp add: good_def)
  have mem: "(p, f) \<in> set (gs s)" using i q nth_mem [of i "gs s"] by simp
  have okp: "pc_ok ctx (p, f)" using g mem by (auto simp: good_def)
  have semp: "p \<noteq> Start \<Longrightarrow> parallelJobsSemaphore (globals s) \<noteq> None"
  proof
    assume "p \<noteq> Start" and "parallelJobsSemaphore (globals s) = None"
    with sem_inv mem show False by auto
  qed
  have wgp: "before_done p \<Longrightarrow> 1 \<le> wg s"
    using g tally_pos [of i "gs s" before_done] i q by (simp add: good_def)
  show ?thesis
  proof (cases p)
    case Start
    show ?thesis
    proof (cases "parallelJobsSemaphore (globals s)")
      case None
      with sem_inv have n: "make_accepts h (numParallel h)" "k = nat (numParallel h)"
        "\<forall>q \<in> set (gs s). fst q = Start" by simp_all
      from n(3) have "tally holding (gs s) = 0" by (intro tally_none) auto
      with st q Start None n show ?thesis
        by (intro M [of s' Sending])
          (auto simp: step_g_def set_pc_def parallelJobs_def make_chan_def Let_def said_def)
    next
      case (Some c)
      with st q Start sem_inv show ?thesis
        by (intro M [of s' Sending])
          (auto simp: step_g_def set_pc_def parallelJobs_def said_def)
    qed
  next
    case Sending
    with st q sem_inv show ?thesis
      by (intro M [of s' Calling])
        (auto simp: step_g_def set_pc_def send1_def said_def split: option.splits if_splits)
  next
    case Calling
    show ?thesis
    proof (cases "f ctx")
      case (Returns r)
      show ?thesis
      proof (cases r)
        case None
        with semp st q Calling Returns sem_inv show ?thesis
          by (intro M [of s' Finishing])
            (auto simp: step_g_def set_pc_def said_def split: option.splits)
      next
        case (Some e)
        with semp st q Calling Returns sem_inv show ?thesis
          by (intro M [of s' "Failed e"])
            (auto simp: step_g_def set_pc_def said_def split: option.splits)
      qed
    next
      case (Panics v)
      with semp st q Calling sem_inv show ?thesis
        by (intro M [of s' "Recovering v"])
          (auto simp: step_g_def set_pc_def said_def split: option.splits)
    qed
  next
    case (Failed e)
    with semp st q okp sem_inv show ?thesis
      by (intro M [of s' Finishing])
        (auto simp: step_g_def set_pc_def said_def split: option.splits)
  next
    case (Recovering v)
    with semp st q Recovering okp sem_inv show ?thesis
      by (cases v; intro M [of s' Finishing])
        (auto simp: step_g_def set_pc_def said_def split: option.splits)
  next
    case Finishing
    with semp st q Finishing sem_inv wgp show ?thesis
      by (intro M [of s' Releasing])
        (auto simp: step_g_def set_pc_def said_def split: option.splits if_splits)
  next
    case Releasing
    with semp st q Releasing sem_inv show ?thesis
      by (intro M [of s' Receiving])
        (auto simp: step_g_def set_pc_def said_def parallelJobs_def split: option.splits)
  next
    case Receiving
    with st q sem_inv holding_le [OF i, unfolded q] show ?thesis
      by (intro M [of s' Exited])
        (auto simp: step_g_def set_pc_def said_def split: option.splits list.splits)
  next
    case Exited
    with st q show ?thesis by (simp add: step_g_def)
  qed
qed

lemma good_step_sync:
  assumes g: "good h ctx k ws s" and st: "step_sync i j s = Some s'"
  shows "good h ctx k ws s'"
proof -
  from st obtain c where c: "parallelJobsSemaphore (globals s) = Some c" "cap c = 0"
    "j < length (gs s)" "fst (gs s ! j) = Receiving"
    by (auto simp: step_sync_def split: option.splits if_splits)
  from g c(1,2) have "tally holding (gs s) = 0" by (auto simp: good_def)
  moreover from c(3,4) have "0 < tally holding (gs s)" by (intro tally_pos [of j]) simp_all
  ultimately show ?thesis by simp
qed

lemma good_step:
  assumes "good h ctx k ws s" and "step h ctx t s = Some s'"
  shows "good h ctx k ws s'"
proof (cases t)
  case Main
  with assms show ?thesis by (auto simp: step_def intro: good_main split: if_splits)
next
  case (G i)
  with assms show ?thesis by (auto simp: step_def intro: good_step_g split: if_splits)
next
  case (Sync i j)
  with assms show ?thesis by (auto simp: step_def intro: good_step_sync split: if_splits)
qed

lemma good_exec:
  "good h ctx k ws s \<Longrightarrow> exec h ctx sched s = Some s' \<Longrightarrow> good h ctx k ws s'"
proof (induction sched arbitrary: s)
  case Nil
  then show ?case by simp
next
  case (Cons t ts)
  from Cons.prems(2) obtain s1 where s1: "step h ctx t s = Some s1" "exec h ctx ts s1 = Some s'"
    by (auto split: option.splits)
  from good_step [OF Cons.prems(1) s1(1)] s1(2) show ?case by (rule Cons.IH)
qed

lemma good_start:
  assumes "wrap_all fns = Inr ws" and "idle h g"
  shows "good h ctx (capacity h g) ws (ParallelCtx_start g fns)"
  using assms
  by (auto simp: good_def ParallelCtx_start_def idle_def capacity_def tally_def told_def
      split: option.splits)

lemma good_run:
  assumes "wrap_all fns = Inr ws" and "idle h g" and "ParallelCtx h g ctx fns sched = Some s"
  shows "good h ctx (capacity h g) ws s"
  using good_exec [OF good_start [OF assms(1,2)]] assms(3) by (simp add: ParallelCtx_def)


lemma good_slots:
  assumes "good h ctx k ws s"
  shows "tally holding (gs s) \<le> k"
    and "case parallelJobsSemaphore (globals s) of
           None \<Rightarrow> tally holding (gs s) = 0
         | Some c \<Rightarrow> cap c = k \<and> length (queue c) = tally holding (gs s)"
proof -
  show b: "case parallelJobsSemaphore (globals s) of
           None \<Rightarrow> tally holding (gs s) = 0
         | Some c \<Rightarrow> cap c = k \<and> length (queue c) = tally holding (gs s)"
  proof (cases "parallelJobsSemaphore (globals s)")
    case None
    with assms have "\<forall>q \<in> set (gs s). fst q = Start" by (auto simp: good_def)
    then have "tally holding (gs s) = 0" by (intro tally_none) auto
    with None show ?thesis by simp
  next
    case (Some c)
    with assms show ?thesis by (auto simp: good_def)
  qed
  from assms b show "tally holding (gs s) \<le> k"
    by (cases "parallelJobsSemaphore (globals s)") (auto simp: good_def)
qed

subsection \<open>Runs end, and end with the call returned\<close>

lemma step_g_shape:
  assumes "step_g h ctx i s = Some s'" and "crashed s = None" and "crashed s' = None"
    and "gs s ! i = (p, f)"
  shows "\<exists>p'. gs s' = (gs s)[i := (p', f)] \<and> rank p' < rank p
           \<and> pending s' = pending s \<and> returned s' = returned s"
  using assms
  by (cases p)
    (auto simp: step_g_def set_pc_def split: sum.splits option.splits if_splits list.splits
      behaviour.splits)

lemma fuel_step_g:
  assumes "step_g h ctx i s = Some s'" and "crashed s = None" and "crashed s' = None"
    and i: "i < length (gs s)"
  shows "fuel s' < fuel s"
proof -
  obtain p f where q: "gs s ! i = (p, f)" by (cases "gs s ! i")
  from step_g_shape [OF assms(1-3) q] obtain p' where
    p': "gs s' = (gs s)[i := (p', f)]" "rank p' < rank p"
    "pending s' = pending s" "returned s' = returned s" by blast
  from sum_list_update_add [OF i, of "\<lambda>q. rank (fst q)" "(p', f)"] q p'
  show ?thesis by (simp add: fuel_def)
qed

lemma fuel_step:
  assumes g: "good h ctx k ws s" and st: "step h ctx t s = Some s'"
  shows "fuel s' < fuel s"
proof -
  from g have c: "crashed s = None" by (simp add: good_def)
  from good_step [OF g st] have c': "crashed s' = None" by (simp add: good_def)
  show ?thesis
  proof (cases t)
    case Main
    with st c show ?thesis
      by (auto simp: step_def step_main_def fuel_def split: if_splits list.splits)
  next
    case (G i)
    with st c c' show ?thesis
      by (auto simp: step_def intro: fuel_step_g split: if_splits)
  next
    case (Sync i j)
    with st c have "step_sync i j s = Some s'" by (simp add: step_def)
    then obtain cc where cc: "parallelJobsSemaphore (globals s) = Some cc" "cap cc = 0"
      "j < length (gs s)" "fst (gs s ! j) = Receiving"
      by (auto simp: step_sync_def split: option.splits if_splits)
    from g cc(1,2) have "tally holding (gs s) = 0" by (auto simp: good_def)
    moreover from cc(3,4) have "0 < tally holding (gs s)" by (intro tally_pos [of j]) simp_all
    ultimately show ?thesis by simp
  qed
qed




lemma step_g_free:
  assumes "gs s ! i = (p, f)" and "p \<noteq> Sending" and "p \<noteq> Receiving" and "p \<noteq> Exited"
  shows "step_g h ctx i s \<noteq> None"
  using assms
  by (cases p)
    (auto simp: step_g_def split: sum.splits option.splits behaviour.splits)

lemma stuck_done:
  assumes g: "good h ctx k ws s" and k: "0 < k"
    and stuck: "\<forall>t. step h ctx t s = None"
  shows "returned s \<noteq> None \<and> (\<forall>q \<in> set (gs s). fst q = Exited)"
proof -
  from g have c: "crashed s = None" by (simp add: good_def)
  have gi: "step_g h ctx i s = None" if "i < length (gs s)" for i
    using stuck [rule_format, of "G i"] c that by (simp add: step_def)
  have sem_inv: "case parallelJobsSemaphore (globals s) of
        None \<Rightarrow> (\<forall>q \<in> set (gs s). fst q = Start)
      | Some c \<Rightarrow> cap c = k \<and> tally holding (gs s) = length (queue c)"
    using g by (auto simp: good_def split: option.splits)
  have only: "fst (gs s ! i) = Sending \<or> fst (gs s ! i) = Receiving \<or> fst (gs s ! i) = Exited"
    if "i < length (gs s)" for i
  proof (rule ccontr)
    assume a: "\<not> ?thesis"
    obtain p f where q: "gs s ! i = (p, f)" by (cases "gs s ! i")
    with a step_g_free [OF q, of h ctx] gi [OF that] show False by simp
  qed
  have no_recv: "fst (gs s ! i) \<noteq> Receiving" if i: "i < length (gs s)" for i
  proof
    assume r: "fst (gs s ! i) = Receiving"
    then have "0 < tally holding (gs s)" using i by (intro tally_pos [of i]) simp_all
    moreover have "gs s ! i \<in> set (gs s)" using i by simp
    ultimately obtain cc where cc: "parallelJobsSemaphore (globals s) = Some cc" "queue cc \<noteq> []"
      using sem_inv r by (cases "parallelJobsSemaphore (globals s)") auto
    with r gi [OF i] show False
      by (auto simp: step_g_def split: list.splits)
  qed
  have no_send: "fst (gs s ! i) \<noteq> Sending" if i: "i < length (gs s)" for i
  proof
    assume r: "fst (gs s ! i) = Sending"
    have "gs s ! i \<in> set (gs s)" using i by simp
    with r sem_inv obtain cc where cc: "parallelJobsSemaphore (globals s) = Some cc"
      "cap cc = k" "tally holding (gs s) = length (queue cc)"
      by (cases "parallelJobsSemaphore (globals s)") auto
    with r gi [OF i] have "\<not> length (queue cc) < k"
      by (auto simp: step_g_def split: if_splits)
    with cc k have "0 < tally holding (gs s)" by (cases "queue cc") auto
    from tally_witness [OF this] obtain j where j: "j < length (gs s)" "holding (fst (gs s ! j))"
      by blast
    from only [OF j(1)] no_recv [OF j(1)] j(2) show False by auto
  qed
  have ex: "\<forall>q \<in> set (gs s). fst q = Exited"
  proof
    fix q assume "q \<in> set (gs s)"
    then obtain i where i: "i < length (gs s)" "gs s ! i = q" by (auto simp: in_set_conv_nth)
    from only [OF i(1)] no_recv [OF i(1)] no_send [OF i(1)] i(2) show "fst q = Exited" by simp
  qed
  then have "tally before_done (gs s) = 0" by (intro tally_none) auto
  with g have w: "wg s = 0" by (simp add: good_def)
  from stuck [rule_format, of Main] c w have "returned s \<noteq> None"
    by (auto simp: step_def step_main_def split: if_splits list.splits)
  with ex show ?thesis by simp
qed

lemma can_finish:
  assumes "good h ctx k ws s"
  shows "\<exists>sched s'. exec h ctx sched s = Some s' \<and> (\<forall>t. step h ctx t s' = None)"
  using assms
proof (induction "fuel s" arbitrary: s rule: less_induct)
  case less
  show ?case
  proof (cases "\<forall>t. step h ctx t s = None")
    case True
    then have "exec h ctx [] s = Some s \<and> (\<forall>t. step h ctx t s = None)" by simp
    then show ?thesis by blast
  next
    case False
    then obtain t s1 where s1: "step h ctx t s = Some s1" by auto
    from less.hyps [OF fuel_step [OF less.prems s1] good_step [OF less.prems s1]]
    obtain sched s' where "exec h ctx sched s1 = Some s'" "\<forall>t. step h ctx t s' = None" by blast
    with s1 have "exec h ctx (t # sched) s = Some s' \<and> (\<forall>t. step h ctx t s' = None)" by simp
    then show ?thesis by blast
  qed
qed

lemma exec_append:
  "exec h ctx (xs @ ys) s = (case exec h ctx xs s of None \<Rightarrow> None | Some s1 \<Rightarrow> exec h ctx ys s1)"
  by (induction xs arbitrary: s) (auto split: option.splits)

lemma can_return:
  assumes g: "good h ctx k ws s" and k: "0 < k"
  shows "\<exists>rest s'. exec h ctx rest s = Some s' \<and> returned s' \<noteq> None
           \<and> (\<forall>q \<in> set (gs s'). fst q = Exited)"
proof -
  from can_finish [OF g] obtain rest s' where
    m: "exec h ctx rest s = Some s'" "\<forall>t. step h ctx t s' = None" by blast
  from stuck_done [OF good_exec [OF g m(1)] k m(2)] m(1) show ?thesis by blast
qed

lemma run_append:
  "ParallelCtx h g ctx fns sched = Some s \<Longrightarrow>
     ParallelCtx h g ctx fns (sched @ rest) = exec h ctx rest s"
  by (simp add: ParallelCtx_def exec_append)






lemma step_ended:
  assumes "gs s = []" and "returned s \<noteq> None"
  shows "step h ctx t s = None"
  using assms
  by (cases t) (auto simp: step_def step_main_def step_sync_def split: option.splits)

lemma exec_ended:
  assumes "gs s = []" and "returned s \<noteq> None"
  shows "exec h ctx sched s = (if sched = [] then Some s else None)"
  using step_ended [OF assms] by (cases sched) simp_all

lemma wrap_all_bad:
  "\<exists>f \<in> set fns. FuncTypeWrap f = None \<Longrightarrow> wrap_all fns = Inl dep_panic"
proof (induction fns)
  case Nil
  then show ?case by simp
next
  case (Cons f fs)
  show ?case
  proof (cases "FuncTypeWrap f")
    case None
    then show ?thesis by simp
  next
    case (Some fw)
    with Cons.prems have "\<exists>f \<in> set fs. FuncTypeWrap f = None" by auto
    from Cons.IH [OF this] Some show ?thesis by simp
  qed
qed

subsection \<open>The semaphore and the maps\<close>

lemma parallelJobs_keeps:
  "parallelJobsSemaphore g = Some c \<Longrightarrow> parallelJobs h g = Inr g"
  by (simp add: parallelJobs_def)

lemma parallelJobs_calls_keep:
  "parallelJobsSemaphore g = Some c \<Longrightarrow> parallelJobs_calls hs g = Inr g"
  by (induction hs) (simp_all add: parallelJobs_keeps)

lemma assign_all_nil: "es \<noteq> [] \<Longrightarrow> assign_all None es = Inl nil_map_panic"
  by (cases es) auto

lemma join_loop_nil:
  "\<exists>m \<in> set ms. entries m \<noteq> [] \<Longrightarrow> join_loop None ms = Inl nil_map_panic"
proof (induction ms)
  case Nil
  then show ?case by simp
next
  case (Cons m ms)
  show ?case
  proof (cases "entries m = []")
    case True
    with Cons show ?thesis by simp
  next
    case False
    then show ?thesis by (simp add: assign_all_nil)
  qed
qed

lemma joinMaps_two:
  "2 \<le> length args \<Longrightarrow> joinMaps args = join_loop None args"
  by (cases args rule: joinMaps.cases) simp_all

subsection \<open>The example runs\<close>

lemmas run_simps = ParallelCtx_def ParallelCtx_start_def step_def step_main_def step_g_def
  set_pc_def send1_def parallelJobs_def make_chan_def make_accepts_def numParallel_def
  hostParallel_def
  verdict_def newline_def Let_def

lemma numParallel_host_a: "numParallel host_a = 4"
  by (simp add: numParallel_def host_a_def)

lemma wrap_ex: "wrap_all fns_ex = Inr ws_ex"
  by (simp add: fns_ex_def ws_ex_def)

lemma make_accepts_ex: "make_accepts host_a (numParallel host_a)"
  by (simp add: make_accepts_def numParallel_host_a) (simp add: host_a_def)

lemma idle_ex: "idle host_a fresh"
  by (simp add: idle_def fresh_def make_accepts_ex)

lemma capacity_ex: "capacity host_a fresh = 4"
  by (simp add: capacity_def fresh_def numParallel_host_a)



lemma run_two:
  "\<exists>s. ParallelCtx host_a fresh Background fns_ex sched_two = Some s
     \<and> map fst (gs s) = [Calling, Calling, Calling]
     \<and> parallelJobsSemaphore (globals s) = Some \<lparr>cap = 4, queue = [1, 1, 1]\<rparr>"
  by (simp add: run_simps host_a_def fresh_def fns_ex_def sched_two_def)

section \<open>The claims\<close>




text \<open>
  Claim C2. In every state of every run the goroutines whose task runs are among those that
  hold a slot, and these are never more than the capacity of the semaphore; the channel
  holds one value for each of them, and its capacity never changes. A goroutine at its send
  cannot move while the channel is full. With a positive capacity, when nobody can move
  any more every goroutine is over and no slot is held, whatever the tasks did, and every
  run can be continued to such a state.
\<close>

theorem ParallelCtx_bounded_concurrency:
  assumes w: "wrap_all fns = Inr ws" and i: "idle h g"
    and run: "ParallelCtx h g ctx fns sched = Some s"
  shows "tally running (gs s) \<le> tally holding (gs s) \<and> tally holding (gs s) \<le> capacity h g
       \<and> (case parallelJobsSemaphore (globals s) of
             None \<Rightarrow> tally holding (gs s) = 0
           | Some c \<Rightarrow> cap c = capacity h g \<and> length (queue c) = tally holding (gs s))
       \<and> (\<forall>j c. j < length (gs s) \<and> fst (gs s ! j) = Sending \<and>
                 parallelJobsSemaphore (globals s) = Some c \<and> cap c \<le> length (queue c)
              \<longrightarrow> step h ctx (G j) s = None)
       \<and> (0 < capacity h g \<longrightarrow>
            ((\<forall>t. step h ctx t s = None) \<longrightarrow>
               (\<forall>q \<in> set (gs s). fst q = Exited) \<and> tally holding (gs s) = 0) \<and>
            (\<exists>rest s'. ParallelCtx h g ctx fns (sched @ rest) = Some s' \<and>
                (\<forall>q \<in> set (gs s'). fst q = Exited) \<and> tally holding (gs s') = 0))"
proof (intro conjI allI impI)
  note g = good_run [OF w i run]
  show "tally running (gs s) \<le> tally holding (gs s)"
    by (rule tally_mono) (rule running_holding)
  show "tally holding (gs s) \<le> capacity h g" by (rule good_slots(1) [OF g])
  show "case parallelJobsSemaphore (globals s) of
             None \<Rightarrow> tally holding (gs s) = 0
           | Some c \<Rightarrow> cap c = capacity h g \<and> length (queue c) = tally holding (gs s)"
    by (rule good_slots(2) [OF g])
  {
    fix j c
    assume "j < length (gs s) \<and> fst (gs s ! j) = Sending \<and>
              parallelJobsSemaphore (globals s) = Some c \<and> cap c \<le> length (queue c)"
    then show "step h ctx (G j) s = None"
      by (simp add: step_def step_g_def)
  }
  {
    assume k: "0 < capacity h g"
    {
      assume st: "\<forall>t. step h ctx t s = None"
      from stuck_done [OF g k st] show e: "\<forall>q \<in> set (gs s). fst q = Exited" by simp
      then show "tally holding (gs s) = 0" by (intro tally_none) auto
    }
    from can_return [OF g k] obtain rest s' where
      r: "exec h ctx rest s = Some s'" "\<forall>q \<in> set (gs s'). fst q = Exited" by blast
    from r(2) have "tally holding (gs s') = 0" by (intro tally_none) auto
    with r run_append [OF run, of rest]
    show "\<exists>rest s'. ParallelCtx h g ctx fns (sched @ rest) = Some s' \<and>
                (\<forall>q \<in> set (gs s'). fst q = Exited) \<and> tally holding (gs s') = 0"
      by auto
  }
qed

theorem ParallelCtx_bounded_concurrency_witness:
  "wrap_all fns_ex = Inr ws_ex \<and> idle host_a fresh \<and>
   (\<exists>s. ParallelCtx host_a fresh Background fns_ex sched_two = Some s \<and>
        tally running (gs s) = 3 \<and> tally holding (gs s) = 3 \<and> capacity host_a fresh = 4 \<and>
        tally holding (gs s) \<le> capacity host_a fresh \<and>
        (\<exists>rest s'. ParallelCtx host_a fresh Background fns_ex (sched_two @ rest) = Some s' \<and>
            tally holding (gs s') = 0))"
proof -
  from run_two obtain s where s: "ParallelCtx host_a fresh Background fns_ex sched_two = Some s"
    and p: "map fst (gs s) = [Calling, Calling, Calling]" by (elim exE conjE)
  from p have t: "tally running (gs s) = 3" "tally holding (gs s) = 3"
    by (simp_all add: tally_map_fst)
  from ParallelCtx_bounded_concurrency [OF wrap_ex idle_ex s] t
  show ?thesis
    using wrap_ex idle_ex s by (auto simp: capacity_ex)
qed

text \<open>
  Claim C3. \<^verbatim>\<open>numParallel\<close> is the value of \<^verbatim>\<open>MAX_PARALLEL\<close> when the variable is set,
  \<^verbatim>\<open>Atoi\<close> reads it and the number is positive. In every other case it is the smaller of
  the host's CPUs and the Docker host's when \<^verbatim>\<open>GetDockerInfo\<close> answers, and the host's
  CPUs when it does not.
\<close>

theorem numParallel_cap:
  "(Getenv h ''MAX_PARALLEL'' \<noteq> [] \<and> Atoi h (Getenv h ''MAX_PARALLEL'') = Inr n \<and> 0 < n
      \<longrightarrow> numParallel h = n)
   \<and> (\<not> (Getenv h ''MAX_PARALLEL'' \<noteq> [] \<and>
          (\<exists>k. Atoi h (Getenv h ''MAX_PARALLEL'') = Inr k \<and> 0 < k))
      \<longrightarrow> numParallel h =
            (case GetDockerInfo h of
               Inr info \<Rightarrow> min (NumCPU h) (NCPU info)
             | Inl err \<Rightarrow> NumCPU h))"
  by (auto simp: numParallel_def hostParallel_def Let_def split: sum.splits)

theorem numParallel_cap_witness:
  "numParallel host_a = 4
   \<and> numParallel (host_a\<lparr>Getenv := (\<lambda>k. [])\<rparr>) = 2
   \<and> numParallel (host_a\<lparr>Getenv := (\<lambda>k. ''0'')\<rparr>) = 2
   \<and> numParallel (host_a\<lparr>Getenv := (\<lambda>k. ''-3'')\<rparr>) = 2
   \<and> numParallel (host_a\<lparr>Getenv := (\<lambda>k. ''four'')\<rparr>) = 2
   \<and> numParallel (host_a\<lparr>Getenv := (\<lambda>k. []), GetDockerInfo := Inl ''no docker''\<rparr>) = 8"
  using numParallel_cap [of host_a 4]
    numParallel_cap [of "host_a\<lparr>Getenv := (\<lambda>k. [])\<rparr>"]
    numParallel_cap [of "host_a\<lparr>Getenv := (\<lambda>k. ''0'')\<rparr>"]
    numParallel_cap [of "host_a\<lparr>Getenv := (\<lambda>k. ''-3'')\<rparr>"]
    numParallel_cap [of "host_a\<lparr>Getenv := (\<lambda>k. ''four'')\<rparr>"]
    numParallel_cap [of "host_a\<lparr>Getenv := (\<lambda>k. []), GetDockerInfo := Inl ''no docker''\<rparr>"]
  by (simp add: host_a_def)

text \<open>
  Claim C4. One task that returns the error \<^verbatim>\<open>hi%d\<close>: the call panics with
  \<^verbatim>\<open>errors.Errorf("hi%d")\<close>. The failure is the format of \<^verbatim>\<open>Errorf\<close> and not an operand of
  it, so the text of the error is what \<^verbatim>\<open>fmt.Sprintf\<close> makes of a verb without operand.
\<close>

theorem ParallelCtx_format_string:
  "\<exists>s. ParallelCtx host_a fresh Background [FuncError (Returns (Some ''hi%d''))]
          [Main, G 0, G 0, G 0, G 0, G 0, Main] = Some s
      \<and> errs s = [''hi%d'']
      \<and> returned s = Some (Panic (PanicErrorf ''hi%d''))"
  by (simp add: run_simps host_a_def fresh_def)




text \<open>
  Claim C6. Without tasks the first and only step of a run is the return of the call,
  without a panic: no goroutine is started and the package variables stay as they are,
  whatever the host and the semaphore.
\<close>

theorem ParallelCtx_no_tasks:
  "ParallelCtx h g ctx [] sched =
     (if sched = []
      then Some \<lparr>globals = g, pending = [], gs = [], wg = 0, errs = [],
                 returned = None, crashed = None\<rparr>
      else if sched = [Main]
      then Some \<lparr>globals = g, pending = [], gs = [], wg = 0, errs = [],
                 returned = Some Normal, crashed = None\<rparr>
      else None)"
proof (cases sched)
  case Nil
  then show ?thesis by (simp add: ParallelCtx_def ParallelCtx_start_def)
next
  case (Cons t ts)
  let ?s0 = "\<lparr>globals = g, pending = [], gs = [], wg = 0, errs = [],
                 returned = None, crashed = None\<rparr>"
  let ?s1 = "\<lparr>globals = g, pending = [], gs = [], wg = 0, errs = [],
                 returned = Some Normal, crashed = None\<rparr>"
  have s0: "ParallelCtx_start g [] = ?s0" by (simp add: ParallelCtx_start_def)
  show ?thesis
  proof (cases t)
    case Main
    have "step h ctx Main ?s0 = Some ?s1" by (simp add: step_def step_main_def verdict_def)
    moreover have "exec h ctx ts ?s1 = (if ts = [] then Some ?s1 else None)"
      by (rule exec_ended) simp_all
    ultimately show ?thesis using Cons Main s0 by (simp add: ParallelCtx_def)
  next
    case (G i)
    have "step h ctx (G i) ?s0 = None" by (simp add: step_def)
    then show ?thesis using Cons G s0 by (simp add: ParallelCtx_def)
  next
    case (Sync i j)
    have "step h ctx (Sync i j) ?s0 = None"
      by (simp add: step_def step_sync_def split: option.splits)
    then show ?thesis using Cons Sync s0 by (simp add: ParallelCtx_def)
  qed
qed

text \<open>
  Claim C7. The semaphore does not exist when the process starts. The first call of
  \<^verbatim>\<open>parallelJobs\<close> makes it with the
  capacity \<^verbatim>\<open>numParallel\<close> gives at that moment and logs one line; after any number of
  further calls, whatever the host answers then, the semaphore and the log are the
  same. In any state in which the semaphore exists a call changes nothing. The size of
  the first call must be one \<^verbatim>\<open>make\<close> accepts: not negative and not beyond what the
  runtime allocates.
\<close>

theorem parallelJobs_once:
  "parallelJobsSemaphore fresh = None \<and>
   (parallelJobsSemaphore g = None \<and> make_accepts h (numParallel h) \<longrightarrow>
      parallelJobs_calls (h # hs) g =
        Inr (g\<lparr>parallelJobsSemaphore := Some \<lparr>cap = nat (numParallel h), queue = []\<rparr>,
               logged := logged g @ [MaxParallelJobs (numParallel h)]\<rparr>))
   \<and> (parallelJobsSemaphore g = Some c \<longrightarrow> parallelJobs h' g = Inr g)"
proof (intro conjI impI)
  show "parallelJobsSemaphore fresh = None" by (simp add: fresh_def)
next
  assume a: "parallelJobsSemaphore g = None \<and> make_accepts h (numParallel h)"
  let ?g' = "g\<lparr>parallelJobsSemaphore := Some \<lparr>cap = nat (numParallel h), queue = []\<rparr>,
               logged := logged g @ [MaxParallelJobs (numParallel h)]\<rparr>"
  from a have "parallelJobs h g = Inr ?g'"
    by (simp add: parallelJobs_def make_chan_def Let_def)
  moreover have "parallelJobs_calls hs ?g' = Inr ?g'"
    by (rule parallelJobs_calls_keep) simp
  ultimately show "parallelJobs_calls (h # hs) g = Inr ?g'" by simp
next
  assume "parallelJobsSemaphore g = Some c"
  then show "parallelJobs h' g = Inr g" by (rule parallelJobs_keeps)
qed

theorem parallelJobs_once_witness:
  "parallelJobsSemaphore fresh = None \<and> make_accepts host_a (numParallel host_a) \<and>
   parallelJobs_calls [host_a, host_a\<lparr>Getenv := (\<lambda>k. [])\<rparr>, host_a\<lparr>NumCPU := 1\<rparr>] fresh =
     Inr \<lparr>parallelJobsSemaphore = Some \<lparr>cap = 4, queue = []\<rparr>, logged = [MaxParallelJobs 4]\<rparr> \<and>
   parallelJobs (host_a\<lparr>Getenv := (\<lambda>k. [])\<rparr>)
     \<lparr>parallelJobsSemaphore = Some \<lparr>cap = 4, queue = [1]\<rparr>, logged = [MaxParallelJobs 4]\<rparr> =
     Inr \<lparr>parallelJobsSemaphore = Some \<lparr>cap = 4, queue = [1]\<rparr>, logged = [MaxParallelJobs 4]\<rparr>"
  using parallelJobs_once [of fresh host_a "[host_a\<lparr>Getenv := (\<lambda>k. [])\<rparr>, host_a\<lparr>NumCPU := 1\<rparr>]"
      "\<lparr>cap = 4, queue = []\<rparr>" host_a]
    parallelJobs_once [of "\<lparr>parallelJobsSemaphore = Some \<lparr>cap = 4, queue = [1]\<rparr>,
        logged = [MaxParallelJobs 4]\<rparr>" host_a "[]" "\<lparr>cap = 4, queue = [1]\<rparr>"
      "host_a\<lparr>Getenv := (\<lambda>k. [])\<rparr>"]
  by (simp add: fresh_def numParallel_host_a make_accepts_ex [unfolded numParallel_host_a])

text \<open>
  Claim C8. \<^verbatim>\<open>Parallel(fns...)\<close> runs as \<^verbatim>\<open>ParallelCtx(context.Background(), fns...)\<close> does:
  the same state under every schedule.
\<close>

theorem Parallel_is_ParallelCtx_Background:
  "Parallel h g fns sched = ParallelCtx h g Background fns sched"
  by (simp add: Parallel_def)

text \<open>
  Claim C9. When \<^verbatim>\<open>FuncTypeWrap\<close> answers \<^verbatim>\<open>nil\<close> for one of the arguments, the call has
  panicked with the message of line 517 before the loop of line 526: no goroutine exists,
  nothing is left to start, and nobody can ever move.
\<close>

theorem ParallelCtx_bad_dep:
  assumes "\<exists>f \<in> set fns. FuncTypeWrap f = None"
  shows "ParallelCtx h g ctx fns sched =
     (if sched = []
      then Some \<lparr>globals = g, pending = [], gs = [], wg = 0, errs = [],
                 returned = Some (Panic (PanicString dep_panic)), crashed = None\<rparr>
      else None)"
proof -
  let ?s = "\<lparr>globals = g, pending = [], gs = [], wg = 0, errs = [],
             returned = Some (Panic (PanicString dep_panic)), crashed = None\<rparr>"
  from wrap_all_bad [OF assms] have "ParallelCtx_start g fns = ?s"
    by (simp add: ParallelCtx_start_def)
  moreover have "exec h ctx sched ?s = (if sched = [] then Some ?s else None)"
    by (rule exec_ended) simp_all
  ultimately show ?thesis by (simp add: ParallelCtx_def)
qed

theorem ParallelCtx_bad_dep_witness:
  "(\<exists>f \<in> set fns_bad. FuncTypeWrap f = None) \<and>
   ParallelCtx host_a fresh Background fns_bad [] =
     Some \<lparr>globals = fresh, pending = [], gs = [], wg = 0, errs = [],
           returned = Some (Panic (PanicString dep_panic)), crashed = None\<rparr> \<and>
   ParallelCtx host_a fresh Background fns_bad [Main] = None \<and>
   ParallelCtx host_a fresh Background fns_bad [G 0] = None"
proof -
  have b: "\<exists>f \<in> set fns_bad. FuncTypeWrap f = None" by (simp add: fns_bad_def)
  from ParallelCtx_bad_dep [OF b, of host_a fresh Background] b show ?thesis by simp
qed

text \<open>
  Claim C10, as amended. \<^verbatim>\<open>joinMaps\<close> panics on the assignment into the \<^verbatim>\<open>nil\<close> map when it
  gets two or more maps of which one has an entry; it returns \<^verbatim>\<open>nil\<close> for no map and the
  map itself for one map. \<^verbatim>\<open>Expand\<close> and \<^verbatim>\<open>ExpandFile\<close> hand it the one map \<^verbatim>\<open>EnvMap\<close>
  returns, whatever the number of their arguments, and so never panic there.
\<close>

theorem joinMaps_nil_map:
  "(2 \<le> length args \<and> (\<exists>m \<in> set args. entries m \<noteq> []) \<longrightarrow> joinMaps args = Inl nil_map_panic)
   \<and> joinMaps ([] :: (string \<times> 'v) list option list) = Inr None
   \<and> joinMaps [m] = Inr m
   \<and> (\<forall>p. Expand l inp args' \<noteq> Inl p)
   \<and> (\<forall>p. ExpandFile l src dst args' \<noteq> Panics_with p)"
proof (intro conjI impI allI)
  assume a: "2 \<le> length args \<and> (\<exists>m \<in> set args. entries m \<noteq> [])"
  then have "joinMaps args = join_loop None args" by (simp add: joinMaps_two)
  with a show "joinMaps args = Inl nil_map_panic" by (simp add: join_loop_nil)
next
  show "joinMaps ([] :: (string \<times> 'v) list option list) = Inr None" by simp
next
  show "joinMaps [m] = Inr m" by simp
next
  fix p show "Expand l inp args' \<noteq> Inl p"
    by (simp add: Expand_def expandTemplate_def split: sum.splits)
next
  fix p show "ExpandFile l src dst args' \<noteq> Panics_with p"
    by (simp add: ExpandFile_def expandFile_def expandTemplate_def
        split: sum.splits option.splits)
qed

theorem joinMaps_nil_map_witness:
  "2 \<le> length [Some [(''k'', 1::nat)], None] \<and>
   (\<exists>m \<in> set [Some [(''k'', 1::nat)], None]. entries m \<noteq> []) \<and>
   joinMaps [Some [(''k'', 1::nat)], None] = Inl nil_map_panic \<and>
   joinMaps [None, Some [(''k'', 1::nat)]] = Inl nil_map_panic"
  using joinMaps_nil_map [of "[Some [(''k'', 1::nat)], None]"]
    joinMaps_nil_map [of "[None, Some [(''k'', 1::nat)]]"]
  by simp

text \<open>
  The claim as it stands fails for \<^verbatim>\<open>Expand\<close>: with two maps that both have an entry
  the call returns the expanded text.
\<close>

theorem Expand_two_maps_counterexample:
  "2 \<le> length [Some [(''k'', 1::nat)], Some [(''j'', 2)]] \<and>
   entries (Some [(''k'', 1::nat)]) \<noteq> [] \<and>
   Expand lib_ex ''text'' [Some [(''k'', 1)], Some [(''j'', 2)]] = Inr (Inr ''text'') \<and>
   ExpandFile lib_ex ''src'' ''dst'' [Some [(''k'', 1)], Some [(''j'', 2)]] = Gives None"
  by (simp add: Expand_def ExpandFile_def expandFile_def expandTemplate_def createDir_def
      lib_ex_def)

end
